theory Spec2Isabelle
  imports Complex_Main
begin

section \<open>JavaScript values\<close>

text \<open>
  The sanitizer takes \<open>node: any\<close>, in practice the result of \<open>JSON.parse\<close>, and the
  archive holds whatever \<open>JSON.parse\<close> finds under the storage key. Such a value is
  \<open>null\<close>, a boolean, a number, a string, an array or an object with string keys; it
  is finite and acyclic. A string is its sequence of code units. A number is a
  finite double, read here as the rational it denotes (\<open>-0\<close> is \<open>0\<close>).
  An object is its list of own properties; reading a property takes the first
  entry with that key.
\<close>

datatype json =
    JNull
  | JBool bool
  | JNum rat
  | JStr string
  | JArr "json list"
  | JObj "(string \<times> json) list"

text \<open>JavaScript truthiness (\<open>!v\<close> is its negation).\<close>

fun truthy :: "json \<Rightarrow> bool" where
  "truthy JNull = False"
| "truthy (JBool b) = b"
| "truthy (JNum n) = (n \<noteq> 0)"
| "truthy (JStr s) = (s \<noteq> [])"
| "truthy (JArr xs) = True"
| "truthy (JObj kvs) = True"

text \<open>
  \<open>v.k\<close> for the property names the program reads (\<open>title\<close>, \<open>summary\<close>,
  \<open>sourceText\<close>, \<open>children\<close>, \<open>id\<close>): \<open>None\<close> is \<open>undefined\<close>. None of these
  names is defined on the prototypes of numbers, booleans, strings or arrays.
  Reading a property of \<open>null\<close> raises and is modelled where it can happen.
\<close>

fun js_prop :: "json \<Rightarrow> string \<Rightarrow> json option" where
  "js_prop (JObj kvs) k = map_of kvs k"
| "js_prop v k = None"

text \<open>
  Exceptions are values: a function that can throw returns \<open>error + 'a\<close>.
  \<open>RangeError\<close> is what the engine throws when a call finds the call stack
  exhausted.
\<close>

datatype error =
  SyntaxError | TypeError | RangeError | QuotaExceededError | SecurityError | OtherError

section \<open>types.ts\<close>

text \<open>
  \<open>MindMapNode\<close>: \<open>title\<close>, \<open>summary\<close>, \<open>sourceText\<close> and the optional
  \<open>children\<close>. The interface declares \<open>sourceText: string\<close>, but the sanitizer
  builds the object from an \<open>any\<close>, so at run time the field holds whatever value was
  copied; it is a \<open>json\<close> here.
\<close>

datatype MindMapNode =
  MindMapNode (title: string) (summary: string) (sourceText: json)
              (children: "MindMapNode list option")

text \<open>A \<open>MindMapNode\<close> object seen as a plain value again (what \<open>JSON.stringify\<close>
  writes, and what the sanitizer sees when it is given its own output).\<close>

fun node_json :: "MindMapNode \<Rightarrow> json" where
  "node_json (MindMapNode t s src ch) =
     JObj ([(''title'', JStr t), (''summary'', JStr s), (''sourceText'', src)] @
           (case ch of None \<Rightarrow> [] | Some cs \<Rightarrow> [(''children'', JArr (map node_json cs))]))"

section \<open>geminiService: validateAndCleanMindMap\<close>

lemma size_map_of_less:
  "map_of kvs k = Some v \<Longrightarrow> size v < Suc (size_list (size_prod (\<lambda>_. 0) size) kvs)"
  by (induction kvs) (auto split: if_splits)

lemma size_member_less:
  "z \<in> set xs \<Longrightarrow> size (z::json) < Suc (size_list size xs)"
  by (induction xs) auto

text \<open>
  \<^verbatim>\<open>
  if (!node || typeof node.title !== 'string' || typeof node.summary !== 'string') return null;
  const validNode = { title: node.title.substring(0, 200), summary: node.summary,
                      sourceText: node.sourceText || 'N/A' };
  if (Array.isArray(node.children) && node.children.length > 0) {
      validNode.children = node.children.map(child => validateAndCleanMindMap(child))
                                        .filter(child => child !== null);
  }
  return validNode;
  \<close>
  \<open>None\<close> is the \<open>null\<close> result.
\<close>

function validateAndCleanMindMap :: "json \<Rightarrow> MindMapNode option" where
  "validateAndCleanMindMap node =
     (if \<not> truthy node then None
      else case js_prop node ''title'' of
        Some (JStr t) \<Rightarrow>
          (case js_prop node ''summary'' of
             Some (JStr s) \<Rightarrow>
               Some (MindMapNode (take 200 t) s
                 (case js_prop node ''sourceText'' of
                    None \<Rightarrow> JStr ''N/A''
                  | Some v \<Rightarrow> if truthy v then v else JStr ''N/A'')
                 (case js_prop node ''children'' of
                    Some (JArr (c # cs)) \<Rightarrow>
                      Some (map the (filter (\<lambda>child. child \<noteq> None)
                              (map validateAndCleanMindMap (c # cs))))
                  | _ \<Rightarrow> None))
           | _ \<Rightarrow> None)
      | _ \<Rightarrow> None)"
  by pat_completeness auto
termination
proof (relation "measure size", goal_cases)
  case 1
  show ?case by simp
next
  case (2 node x2 x6 x2a x6a x2b x5 x21 x22 z)
  then show ?case
    by (cases node) (auto dest!: size_map_of_less size_member_less simp: less_Suc_eq_le)
qed

declare validateAndCleanMindMap.simps [simp del]

subsection \<open>The sanitizer on a bounded call stack\<close>

text \<open>
  \<open>validateAndCleanMindMap\<close> above is the value a call returns when it returns.
  The source has no depth counter and no \<open>try\<close>: every level of \<open>children\<close> is one
  more activation of the function, nested inside the \<open>map\<close> of its parent, and a
  call that finds the stack exhausted throws \<open>RangeError\<close>, which leaves the
  \<open>map\<close> and every enclosing activation. \<open>frames\<close> is the number of nested
  activations of the function that the stack can still hold.
\<close>

text \<open>
  \<open>array.map(f)\<close> with a callback that can throw: the elements in order, left at
  the first exception.
\<close>

fun array_map :: "('a \<Rightarrow> error + 'b) \<Rightarrow> 'a list \<Rightarrow> error + 'b list" where
  "array_map f [] = Inr []"
| "array_map f (x # xs) =
     (case f x of
        Inl e \<Rightarrow> Inl e
      | Inr y \<Rightarrow> (case array_map f xs of Inl e \<Rightarrow> Inl e | Inr ys \<Rightarrow> Inr (y # ys)))"

fun validateAndCleanMindMap_stack :: "nat \<Rightarrow> json \<Rightarrow> error + MindMapNode option" where
  "validateAndCleanMindMap_stack 0 node = Inl RangeError"
| "validateAndCleanMindMap_stack (Suc frames) node =
     (if \<not> truthy node then Inr None
      else case js_prop node ''title'' of
        Some (JStr t) \<Rightarrow>
          (case js_prop node ''summary'' of
             Some (JStr s) \<Rightarrow>
               (case js_prop node ''children'' of
                  Some (JArr (c # cs)) \<Rightarrow>
                    (case array_map (validateAndCleanMindMap_stack frames) (c # cs) of
                       Inl e \<Rightarrow> Inl e
                     | Inr mapped \<Rightarrow>
                         Inr (Some (MindMapNode (take 200 t) s
                           (case js_prop node ''sourceText'' of
                              None \<Rightarrow> JStr ''N/A''
                            | Some v \<Rightarrow> if truthy v then v else JStr ''N/A'')
                           (Some (map the (filter (\<lambda>child. child \<noteq> None) mapped))))))
                | _ \<Rightarrow>
                    Inr (Some (MindMapNode (take 200 t) s
                      (case js_prop node ''sourceText'' of
                         None \<Rightarrow> JStr ''N/A''
                       | Some v \<Rightarrow> if truthy v then v else JStr ''N/A'')
                      None)))
           | _ \<Rightarrow> Inr None)
      | _ \<Rightarrow> Inr None)"

text \<open>
  The number of nested activations a call on \<open>node\<close> needs: one for the node, and
  below a valid node with a non-empty \<open>children\<close> array as many as its deepest
  child needs.
\<close>

function call_depth :: "json \<Rightarrow> nat" where
  "call_depth node =
     (if \<not> truthy node then 1
      else case js_prop node ''title'' of
        Some (JStr t) \<Rightarrow>
          (case js_prop node ''summary'' of
             Some (JStr s) \<Rightarrow>
               (case js_prop node ''children'' of
                  Some (JArr (c # cs)) \<Rightarrow> Suc (Max (set (map call_depth (c # cs))))
                | _ \<Rightarrow> 1)
           | _ \<Rightarrow> 1)
      | _ \<Rightarrow> 1)"
  by pat_completeness auto
termination
  apply (relation "measure size")
   apply simp
  subgoal for node
    by (cases node) (auto dest!: size_map_of_less size_member_less simp: less_Suc_eq_le)
  done

declare call_depth.simps [simp del]

section \<open>MindMap component: d3.hierarchy over the data prop\<close>

text \<open>
  The component compares nodes with \<open>===\<close>, which is object identity, so the tree
  handed to it as the prop \<open>data\<close> is a tree of objects: every \<open>MindMapNode\<close>
  object carries the reference \<open>ref\<close> that \<open>===\<close> compares. \<open>selectedNode\<close> is
  such a reference or \<open>null\<close> (\<open>None\<close>).
\<close>

datatype NodeObj =
  NodeObj (ref: nat) (obj_title: string) (obj_summary: string) (obj_sourceText: json)
          (obj_children: "NodeObj list option")

text \<open>The value an object tree holds.\<close>

fun obj_value :: "NodeObj \<Rightarrow> MindMapNode" where
  "obj_value (NodeObj r t s src ch) =
     MindMapNode t s src (case ch of None \<Rightarrow> None | Some cs \<Rightarrow> Some (map obj_value cs))"

text \<open>
  A node of \<open>d3.hierarchy(data)\<close>: the wrapped object \<open>data\<close>, its \<open>depth\<close> and
  its \<open>parent\<close> (\<open>null\<close> at the root). d3 sets \<open>children\<close> on a node only when
  the object's \<open>children\<close> is a non-empty array, wrapping each element in order.
\<close>

datatype HierarchyNode =
  HierarchyNode (data: NodeObj) (depth: nat) (parent: "HierarchyNode option")

definition hierarchy :: "NodeObj \<Rightarrow> HierarchyNode" where
  "hierarchy d = HierarchyNode d 0 None"

definition node_children :: "HierarchyNode \<Rightarrow> HierarchyNode list option" where
  "node_children d =
     (case obj_children (data d) of
        Some (c # cs) \<Rightarrow> Some (map (\<lambda>k. HierarchyNode k (depth d + 1) (Some d)) (c # cs))
      | _ \<Rightarrow> None)"

definition child_nodes :: "HierarchyNode \<Rightarrow> HierarchyNode list" where
  "child_nodes d = (case node_children d of None \<Rightarrow> [] | Some cs \<Rightarrow> cs)"

lemma size_child_nodes_less:
  "k \<in> set (child_nodes d) \<Longrightarrow> size (data k) < size (data d)"
proof -
  have mem: "c \<in> set cs \<Longrightarrow> size c < Suc (size_list size cs)" for c :: NodeObj and cs
    by (induction cs) auto
  assume "k \<in> set (child_nodes d)"
  then show ?thesis
    by (cases "data d")
       (auto simp: child_nodes_def node_children_def less_Suc_eq_le
             split: option.splits list.splits dest!: mem)
qed

lemma sum_size_child_nodes_less:
  "sum_list (map (\<lambda>d. size (data d)) (child_nodes d)) < size (data d)"
proof -
  have "sum_list (map (\<lambda>d. size (data d)) (child_nodes d))
          = (case obj_children (data d) of Some cs \<Rightarrow> size_list size cs - length cs | None \<Rightarrow> 0)"
    by (auto simp: child_nodes_def node_children_def comp_def size_list_conv_sum_list
                   sum_list_addf
             split: option.splits list.splits)
  then show ?thesis
    by (cases "data d") (auto split: option.splits)
qed

text \<open>
  \<open>node.descendants()\<close>: the nodes in breadth-first order, level by level, each
  level in child order (d3's node iterator).
\<close>

function bfs :: "HierarchyNode list \<Rightarrow> HierarchyNode list" where
  "bfs level = (if level = [] then [] else level @ bfs (concat (map child_nodes level)))"
  by pat_completeness auto
termination
proof (relation "measure (\<lambda>level. sum_list (map (\<lambda>d. size (data d)) level))", goal_cases)
  case 1
  show ?case by simp
next
  case (2 level)
  have le: "sum_list (map (\<lambda>d. size (data d)) (concat (map child_nodes xs)))
              \<le> sum_list (map (\<lambda>d. size (data d)) xs)" for xs
  proof (induction xs)
    case Nil
    show ?case by simp
  next
    case (Cons y ys)
    have "sum_list (map (\<lambda>d. size (data d)) (child_nodes y)) \<le> size (data y)"
      using sum_size_child_nodes_less [of y] by simp
    with Cons show ?case by simp
  qed
  from 2 obtain x xs where lv: "level = x # xs" by (cases level) auto
  have "sum_list (map (\<lambda>d. size (data d)) (concat (map child_nodes level)))
          < sum_list (map (\<lambda>d. size (data d)) level)"
    using sum_size_child_nodes_less [of x] le [of xs] unfolding lv by simp
  then show ?case by simp
qed

declare bfs.simps [simp del]

definition descendants :: "HierarchyNode \<Rightarrow> HierarchyNode list" where
  "descendants root_node = bfs [root_node]"

text \<open>\<open>node.leaves()\<close>: a pre-order walk keeping the nodes without \<open>children\<close>.\<close>

function eachBefore :: "HierarchyNode \<Rightarrow> HierarchyNode list" where
  "eachBefore d = d # concat (map eachBefore (child_nodes d))"
  by pat_completeness auto
termination
  by (relation "measure (\<lambda>d. size (data d))") (auto dest: size_child_nodes_less)

declare eachBefore.simps [simp del]

definition leaves :: "HierarchyNode \<Rightarrow> HierarchyNode list" where
  "leaves root_node = filter (\<lambda>d. node_children d = None) (eachBefore root_node)"

text \<open>\<open>node.links()\<close>: one link per node other than the root, from its parent.\<close>

record Link =
  source :: HierarchyNode
  target :: HierarchyNode

definition links :: "HierarchyNode \<Rightarrow> Link list" where
  "links root_node =
     concat (map (\<lambda>d. case parent d of None \<Rightarrow> [] | Some p \<Rightarrow> [\<lparr>source = p, target = d\<rparr>])
                 (descendants root_node))"

section \<open>MindMap component: the layout radius\<close>

text \<open>
  The first effect, from the viewport guard to \<open>radius\<close>:
  \<^verbatim>\<open>
  if (width === 0 || height === 0) return;
  const root = d3.hierarchy(data);
  const leaves = root.leaves();
  const leafCount = leaves.length || 1;
  const spacePerLeaf = 35;
  const requiredCircumference = leafCount * spacePerLeaf;
  const calculatedRadius = requiredCircumference / (2 * Math.PI);
  const minRadius = Math.min(width, height) / 2.5;
  const radius = Math.max(calculatedRadius, minRadius);
  \<close>
  \<open>None\<close> is the early return. The arithmetic is read over the real numbers
  (\<open>Math.PI\<close> as \<open>pi\<close>); rounding of doubles is not modelled.
\<close>

definition layout_radius :: "NodeObj \<Rightarrow> real \<Rightarrow> real \<Rightarrow> real option" where
  "layout_radius d width height =
     (if width = 0 \<or> height = 0 then None
      else
        let root_node = hierarchy d;
            lvs = leaves root_node;
            leafCount = (if length lvs = 0 then 1 else length lvs);
            spacePerLeaf = 35;
            requiredCircumference = real leafCount * spacePerLeaf;
            calculatedRadius = requiredCircumference / (2 * pi);
            minRadius = min width height / 2.5;
            radius = max calculatedRadius minRadius
        in Some radius)"

section \<open>MindMap component: focus mode\<close>

text \<open>
  The loop that collects the ancestors of the found node:
  \<^verbatim>\<open>
  while (current) { ancestors.add(current.data); current = current.parent; }
  \<close>
\<close>

fun collect_ancestors :: "HierarchyNode option \<Rightarrow> nat set \<Rightarrow> nat set" where
  "collect_ancestors None ancestors = ancestors"
| "collect_ancestors (Some (HierarchyNode current_data current_depth current_parent)) ancestors =
     collect_ancestors current_parent (insert (ref current_data) ancestors)"

text \<open>
  \<^verbatim>\<open>
  const ancestors = new Set();
  let current = d3.hierarchy(data).descendants().find(d => d.data === selectedNode);
  \<close>
  followed by the loop.
\<close>

definition focus_ancestors :: "NodeObj \<Rightarrow> nat option \<Rightarrow> nat set" where
  "focus_ancestors d selectedNode =
     collect_ancestors
       (find (\<lambda>h. Some (ref (data h)) = selectedNode) (descendants (hierarchy d))) {}"

text \<open>
  What the second effect writes on the drawn elements, each as a function of the
  datum bound to the element: \<open>opacity\<close> of a node group, \<open>stroke-opacity\<close> of a
  link path, and \<open>r\<close> and \<open>fill\<close> of a node circle.
\<close>

record Emphasis =
  g_opacity :: "HierarchyNode \<Rightarrow> rat"
  path_stroke_opacity :: "Link \<Rightarrow> rat"
  circle_r :: "HierarchyNode \<Rightarrow> nat"
  circle_fill :: "HierarchyNode \<Rightarrow> string"

definition default_fill :: "bool \<Rightarrow> HierarchyNode \<Rightarrow> string" where
  "default_fill isDarkMode h =
     (if node_children h \<noteq> None then (if isDarkMode then ''#38bdf8'' else ''#0ea5e9'')
      else (if isDarkMode then ''#0c4a6e'' else ''#e0f2fe''))"

definition focus_effect :: "bool \<Rightarrow> bool \<Rightarrow> NodeObj \<Rightarrow> nat option \<Rightarrow> Emphasis" where
  "focus_effect isDarkMode isFocusMode d selectedNode =
     (if isFocusMode \<and> selectedNode \<noteq> None then
        let ancestors = focus_ancestors d selectedNode in
        \<lparr> g_opacity = (\<lambda>h. if ref (data h) \<in> ancestors then 1 else 15 / 100),
          path_stroke_opacity =
            (\<lambda>l. if ref (data (source l)) \<in> ancestors \<and> ref (data (target l)) \<in> ancestors
                  then 1 else 1 / 10),
          circle_r = (\<lambda>h. if Some (ref (data h)) = selectedNode then 8 else 5),
          circle_fill =
            (\<lambda>h. if Some (ref (data h)) = selectedNode then ''#f59e0b''
                  else default_fill isDarkMode h) \<rparr>
      else
        \<lparr> g_opacity = (\<lambda>h. 1),
          path_stroke_opacity = (\<lambda>l. 1),
          circle_r = (\<lambda>h. 5),
          circle_fill = default_fill isDarkMode \<rparr>)"

subsection \<open>Trees, paths and leaves\<close>

text \<open>
  \<open>refs\<close> lists the objects of a tree in pre-order; in a tree every object
  occurs once. \<open>path_to\<close> is the top-down search for an object that tracks the
  path from the root: the references from the root down to the object, both
  included, or \<open>None\<close> when the object is not in the tree.
\<close>

fun refs :: "NodeObj \<Rightarrow> nat list" where
  "refs (NodeObj r t s src ch) =
     r # (case ch of None \<Rightarrow> [] | Some cs \<Rightarrow> concat (map refs cs))"

fun first_some :: "'a option list \<Rightarrow> 'a option" where
  "first_some [] = None"
| "first_some (None # xs) = first_some xs"
| "first_some (Some x # xs) = Some x"

fun path_to :: "NodeObj \<Rightarrow> nat \<Rightarrow> nat list option" where
  "path_to (NodeObj r t s src ch) x =
     (if r = x then Some [r]
      else case first_some (case ch of None \<Rightarrow> [] | Some cs \<Rightarrow> map (\<lambda>c. path_to c x) cs) of
             None \<Rightarrow> None
           | Some p \<Rightarrow> Some (r # p))"

text \<open>The leaves of a tree: the nodes with no children, absent or empty.\<close>

fun leaf_count :: "MindMapNode \<Rightarrow> nat" where
  "leaf_count (MindMapNode t s src ch) =
     (case ch of None \<Rightarrow> 1 | Some cs \<Rightarrow> if cs = [] then 1 else sum_list (map leaf_count cs))"

section \<open>storageService\<close>

text \<open>
  What the service calls and does not define itself: \<open>localStorage\<close> over a store
  \<open>'s\<close> (\<open>getItem\<close> yields \<open>null\<close>, here \<open>None\<close>, for a missing key; a \<open>setItem\<close>
  that throws leaves the store as it was), \<open>JSON.parse\<close>, \<open>JSON.stringify\<close>, and
  the conversion to a number of a string, array or object. Each may throw.
\<close>

record 's Host =
  getItem :: "'s \<Rightarrow> string \<Rightarrow> error + string option"
  setItem :: "'s \<Rightarrow> string \<Rightarrow> string \<Rightarrow> error + 's"
  json_parse :: "string \<Rightarrow> error + json"
  json_stringify :: "json \<Rightarrow> error + string"
  string_to_number :: "json \<Rightarrow> rat option"

definition ARCHIVE_KEY :: string where
  "ARCHIVE_KEY = ''mindMapArchive''"

text \<open>
  \<open>ToNumber\<close> of a property value; \<open>None\<close> is \<open>NaN\<close>, which is also what
  \<open>undefined\<close> converts to.
\<close>

fun to_number :: "(json \<Rightarrow> rat option) \<Rightarrow> json option \<Rightarrow> rat option" where
  "to_number conv None = None"
| "to_number conv (Some JNull) = Some 0"
| "to_number conv (Some (JBool b)) = Some (if b then 1 else 0)"
| "to_number conv (Some (JNum n)) = Some n"
| "to_number conv (Some v) = conv v"

text \<open>
  The comparator \<open>(a, b) => b.id - a.id\<close>. Reading \<open>id\<close> of \<open>null\<close> throws; a
  difference with \<open>NaN\<close> is \<open>NaN\<close>.
\<close>

definition compare_ids :: "(json \<Rightarrow> rat option) \<Rightarrow> json \<Rightarrow> json \<Rightarrow> error + rat option" where
  "compare_ids conv a b =
     (if b = JNull \<or> a = JNull then Inl TypeError
      else Inr (case (to_number conv (js_prop b ''id''), to_number conv (js_prop a ''id'')) of
                  (Some x, Some y) \<Rightarrow> Some (x - y)
                | _ \<Rightarrow> None))"

text \<open>
  \<open>Array.prototype.sort\<close> with a comparator: a stable sort that places \<open>a\<close> after
  \<open>b\<close> when the comparator is positive and treats \<open>NaN\<close> as \<open>0\<close>. ECMAScript fixes
  the result when the comparator is a consistent order; the order of the
  comparisons, and the result for an inconsistent comparator, are left to the
  engine, and an insertion sort stands for them here. An exception of the
  comparator leaves the sort.
\<close>

fun insert_sorted :: "('a \<Rightarrow> 'a \<Rightarrow> error + rat option) \<Rightarrow> 'a \<Rightarrow> 'a list \<Rightarrow> error + 'a list" where
  "insert_sorted cmp a [] = Inr [a]"
| "insert_sorted cmp a (b # bs) =
     (case cmp a b of
        Inl e \<Rightarrow> Inl e
      | Inr v \<Rightarrow>
          if (case v of None \<Rightarrow> False | Some c \<Rightarrow> c > 0)
          then (case insert_sorted cmp a bs of Inl e \<Rightarrow> Inl e | Inr r \<Rightarrow> Inr (b # r))
          else Inr (a # b # bs))"

fun array_sort :: "('a \<Rightarrow> 'a \<Rightarrow> error + rat option) \<Rightarrow> 'a list \<Rightarrow> error + 'a list" where
  "array_sort cmp [] = Inr []"
| "array_sort cmp (a # as) =
     (case array_sort cmp as of Inl e \<Rightarrow> Inl e | Inr sorted_rest \<Rightarrow> insert_sorted cmp a sorted_rest)"

text \<open>
  The body of the \<open>try\<close> in \<open>getArchivedMindMaps\<close>:
  \<^verbatim>\<open>
  const rawData = localStorage.getItem(ARCHIVE_KEY);
  if (!rawData) return [];
  const archives = JSON.parse(rawData) as ArchivedMindMap[];
  return archives.sort((a, b) => b.id - a.id);
  \<close>
  The cast checks nothing: \<open>archives\<close> is whatever was parsed, and \<open>.sort\<close> on a
  value that is not an array throws a \<open>TypeError\<close>.
\<close>

definition getArchivedMindMaps_try :: "'s Host \<Rightarrow> 's \<Rightarrow> error + json list" where
  "getArchivedMindMaps_try host st =
     (case getItem host st ARCHIVE_KEY of
        Inl e \<Rightarrow> Inl e
      | Inr rawData \<Rightarrow>
          (case rawData of
             None \<Rightarrow> Inr []
           | Some raw \<Rightarrow>
               if raw = [] then Inr []
               else (case json_parse host raw of
                       Inl e \<Rightarrow> Inl e
                     | Inr archives \<Rightarrow>
                         (case archives of
                            JArr xs \<Rightarrow> array_sort (compare_ids (string_to_number host)) xs
                          | _ \<Rightarrow> Inl TypeError))))"

text \<open>\<open>try { ... } catch (error) { console.error(...); return []; }\<close>\<close>

definition getArchivedMindMaps :: "'s Host \<Rightarrow> 's \<Rightarrow> error + json list" where
  "getArchivedMindMaps host st =
     (case getArchivedMindMaps_try host st of
        Inl error \<Rightarrow> Inr []
      | Inr archives \<Rightarrow> Inr archives)"

text \<open>
  The \<open>try\<close> of \<open>saveMindMap\<close> and of \<open>deleteMindMap\<close>:
  \<open>localStorage.setItem(ARCHIVE_KEY, JSON.stringify(updatedArchives))\<close>.
\<close>

definition write_archives :: "'s Host \<Rightarrow> 's \<Rightarrow> json list \<Rightarrow> error + 's" where
  "write_archives host st updatedArchives =
     (case json_stringify host (JArr updatedArchives) of
        Inl e \<Rightarrow> Inl e
      | Inr text \<Rightarrow> setItem host st ARCHIVE_KEY text)"

text \<open>
  \<open>saveMindMap(fileName, mindMapData)\<close>; \<open>now\<close> is what \<open>Date.now()\<close> reads and
  \<open>createdAt\<close> what \<open>new Date().toISOString()\<close> gives. The result is the returned
  value, or the exception that escapes, and the store afterwards.
\<close>

definition newArchive :: "nat \<Rightarrow> string \<Rightarrow> string \<Rightarrow> MindMapNode \<Rightarrow> json" where
  "newArchive now createdAt fileName mindMapData =
     JObj [(''id'', JNum (of_nat now)), (''fileName'', JStr fileName),
           (''createdAt'', JStr createdAt), (''mindMapData'', node_json mindMapData)]"

definition saveMindMap ::
  "'s Host \<Rightarrow> nat \<Rightarrow> string \<Rightarrow> string \<Rightarrow> MindMapNode \<Rightarrow> 's \<Rightarrow> (error + json list) \<times> 's" where
  "saveMindMap host now createdAt fileName mindMapData st =
     (case getArchivedMindMaps host st of
        Inl e \<Rightarrow> (Inl e, st)
      | Inr archives \<Rightarrow>
          let updatedArchives = newArchive now createdAt fileName mindMapData # archives
          in (case write_archives host st updatedArchives of
                Inl error \<Rightarrow> (Inr archives, st)
              | Inr st' \<Rightarrow> (Inr updatedArchives, st')))"

text \<open>
  \<open>archives.filter(archive => archive.id !== id)\<close>: reading \<open>id\<close> of a \<open>null\<close>
  element throws.
\<close>

fun filter_other_ids :: "rat \<Rightarrow> json list \<Rightarrow> error + json list" where
  "filter_other_ids ident [] = Inr []"
| "filter_other_ids ident (archive # rest) =
     (if archive = JNull then Inl TypeError
      else case filter_other_ids ident rest of
             Inl e \<Rightarrow> Inl e
           | Inr kept \<Rightarrow>
               Inr (if js_prop archive ''id'' \<noteq> Some (JNum ident) then archive # kept else kept))"

definition deleteMindMap :: "'s Host \<Rightarrow> rat \<Rightarrow> 's \<Rightarrow> (error + json list) \<times> 's" where
  "deleteMindMap host ident st =
     (case getArchivedMindMaps host st of
        Inl e \<Rightarrow> (Inl e, st)
      | Inr archives \<Rightarrow>
          (case filter_other_ids ident archives of
             Inl e \<Rightarrow> (Inl e, st)
           | Inr updatedArchives \<Rightarrow>
               (case write_archives host st updatedArchives of
                  Inl error \<Rightarrow> (Inr archives, st)
                | Inr st' \<Rightarrow> (Inr updatedArchives, st'))))"

section \<open>Predicates and inputs used by the theorems\<close>

text \<open>
  What every node of a sanitizer result satisfies: a title of at most 200 code
  units and a truthy \<open>sourceText\<close>.
\<close>

fun sanitized :: "MindMapNode \<Rightarrow> bool" where
  "sanitized (MindMapNode t s src ch) =
     (length t \<le> 200 \<and> truthy src \<and>
      (case ch of None \<Rightarrow> True | Some cs \<Rightarrow> list_all sanitized cs))"

text \<open>No node of the tree holds an empty \<open>children\<close> array.\<close>

fun no_empty_children :: "MindMapNode \<Rightarrow> bool" where
  "no_empty_children (MindMapNode t s src ch) =
     (case ch of None \<Rightarrow> True | Some cs \<Rightarrow> cs \<noteq> [] \<and> list_all no_empty_children cs)"

text \<open>The nesting depth of a tree: 0 for a node without children.\<close>

fun node_depth :: "MindMapNode \<Rightarrow> nat" where
  "node_depth (MindMapNode t s src ch) =
     (case ch of
        None \<Rightarrow> 0
      | Some cs \<Rightarrow> if cs = [] then 0 else Suc (Max (set (map node_depth cs))))"

text \<open>
  A valid payload nested \<open>n\<close> levels below its root, one child per level, and the
  tree the sanitizer makes of it.
\<close>

fun nested :: "nat \<Rightarrow> json" where
  "nested 0 = JObj [(''title'', JStr ''t''), (''summary'', JStr ''s'')]"
| "nested (Suc n) =
     JObj [(''title'', JStr ''t''), (''summary'', JStr ''s''), (''children'', JArr [nested n])]"

fun nested_node :: "nat \<Rightarrow> MindMapNode" where
  "nested_node 0 = MindMapNode ''t'' ''s'' (JStr ''N/A'') None"
| "nested_node (Suc n) = MindMapNode ''t'' ''s'' (JStr ''N/A'') (Some [nested_node n])"

text \<open>
  The ancestors of a hierarchy node, itself first: the references the focus loop
  adds when it starts at that node.
\<close>

fun chain :: "HierarchyNode \<Rightarrow> nat list" where
  "chain (HierarchyNode d n p) = ref d # (case p of None \<Rightarrow> [] | Some q \<Rightarrow> chain q)"

definition chain_above :: "HierarchyNode \<Rightarrow> nat list" where
  "chain_above h = (case parent h of None \<Rightarrow> [] | Some q \<Rightarrow> chain q)"

text \<open>
  A tree of four objects: the root 0 with the children 1 and 2, and 3 the only
  child of 1; and the four nodes of its hierarchy.
\<close>

definition node_A :: NodeObj where
  "node_A = NodeObj 1 ''A'' ''a'' (JStr ''q'') (Some [NodeObj 3 ''C'' ''c'' (JStr ''q'') None])"

definition node_B :: NodeObj where
  "node_B = NodeObj 2 ''B'' ''b'' (JStr ''q'') None"

definition node_C :: NodeObj where
  "node_C = NodeObj 3 ''C'' ''c'' (JStr ''q'') None"

definition four_nodes :: NodeObj where
  "four_nodes = NodeObj 0 ''Doc'' ''s'' (JStr ''N/A'') (Some [node_A, node_B])"

definition h_root :: HierarchyNode where
  "h_root = HierarchyNode four_nodes 0 None"

definition h_A :: HierarchyNode where
  "h_A = HierarchyNode node_A 1 (Some h_root)"

definition h_B :: HierarchyNode where
  "h_B = HierarchyNode node_B 1 (Some h_root)"

definition h_C :: HierarchyNode where
  "h_C = HierarchyNode node_C 2 (Some h_A)"

text \<open>
  A host whose store is a map from keys to texts and is full: every \<open>setItem\<close>
  throws \<open>QuotaExceededError\<close>. Its \<open>JSON.parse\<close> knows two texts, the empty
  array and an array of one entry with the id 7, and rejects every other text; its
  \<open>JSON.stringify\<close> answers with a fixed text, which is never stored.
\<close>

definition entry7 :: json where
  "entry7 = JObj [(''id'', JNum 7), (''fileName'', JStr ''a.pdf'')]"

definition full_host :: "(string \<rightharpoonup> string) Host" where
  "full_host =
     \<lparr> getItem = (\<lambda>st k. Inr (st k)),
       setItem = (\<lambda>st k v. Inl QuotaExceededError),
       json_parse = (\<lambda>text. if text = ''[]'' then Inr (JArr [])
                             else if text = ''[entry7]'' then Inr (JArr [entry7])
                             else Inl SyntaxError),
       json_stringify = (\<lambda>v. Inr ''[]''),
       string_to_number = (\<lambda>v. None) \<rparr>"

definition store7 :: "string \<rightharpoonup> string" where
  "store7 = [ARCHIVE_KEY \<mapsto> ''[entry7]'']"

section \<open>The sanitizer\<close>

lemma valid_result:
  assumes "truthy node" and "js_prop node ''title'' = Some (JStr t)"
    and "js_prop node ''summary'' = Some (JStr s)"
  shows "validateAndCleanMindMap node =
      Some (MindMapNode (take 200 t) s
              (case js_prop node ''sourceText'' of
                 None \<Rightarrow> JStr ''N/A''
               | Some v \<Rightarrow> if truthy v then v else JStr ''N/A'')
              (case js_prop node ''children'' of
                 Some (JArr (c # cs)) \<Rightarrow>
                   Some (map the (filter (\<lambda>child. child \<noteq> None)
                           (map validateAndCleanMindMap (c # cs))))
               | _ \<Rightarrow> None))"
  using assms by (subst validateAndCleanMindMap.simps) simp

lemma validate_None_iff:
  "validateAndCleanMindMap node = None \<longleftrightarrow>
     \<not> (truthy node \<and> (\<exists>t. js_prop node ''title'' = Some (JStr t))
                    \<and> (\<exists>s. js_prop node ''summary'' = Some (JStr s)))"
  by (subst validateAndCleanMindMap.simps) (auto split: option.splits json.splits)

lemma validate_nested: "validateAndCleanMindMap (nested n) = Some (nested_node n)"
  by (induction n) (simp_all add: validateAndCleanMindMap.simps)

lemma node_depth_nested: "node_depth (nested_node n) = n"
  by (induction n) simp_all

text \<open>
  The title of a result is the first 200 code units of the input's title: a
  prefix of it, of length exactly 200 when the input's title is longer, and the
  whole title otherwise. The summary is the input's.
\<close>

lemma title_truncated_summary_kept:
  assumes "truthy node" and "js_prop node ''title'' = Some (JStr t)"
    and "js_prop node ''summary'' = Some (JStr s)"
  shows "\<exists>m. validateAndCleanMindMap node = Some m \<and> summary m = s \<and>
           title m = take 200 t \<and> length (title m) \<le> 200 \<and>
           (200 < length t \<longrightarrow> length (title m) = 200) \<and>
           (length t \<le> 200 \<longrightarrow> title m = t)"
  by (simp add: valid_result [OF assms])

text \<open>Every node of a result has a title of at most 200 code units and a truthy
  \<open>sourceText\<close>.\<close>

lemma validate_sanitized: "validateAndCleanMindMap node = Some m \<Longrightarrow> sanitized m"
proof (induction node arbitrary: m rule: validateAndCleanMindMap.induct)
  case (1 node)
  from "1.prems" obtain t s where
    tr: "truthy node" and ti: "js_prop node ''title'' = Some (JStr t)"
    and su: "js_prop node ''summary'' = Some (JStr s)"
    by (subst (asm) validateAndCleanMindMap.simps)
       (auto split: if_splits option.splits json.splits)
  have kids: "list_all sanitized
                (map the (filter (\<lambda>child. child \<noteq> None) (map validateAndCleanMindMap (c # cs))))"
    if ch: "js_prop node ''children'' = Some (JArr (c # cs))" for c cs
  proof -
    have "sanitized (the (validateAndCleanMindMap z))"
      if "z \<in> set (c # cs)" "validateAndCleanMindMap z \<noteq> None" for z
      using "1.IH" [OF _ ti refl su refl ch refl refl that(1)] tr that(2) by auto
    then show ?thesis
      by (auto simp: list_all_iff)
  qed
  show ?case
    using "1.prems" kids
    unfolding validateAndCleanMindMap.simps [of node]
    by (auto simp: tr ti su split: option.splits json.splits list.splits)
qed

text \<open>
  On a tree without an empty \<open>children\<close> array the sanitizer is the identity: it
  gives back a sanitized tree unchanged.
\<close>

lemma validate_node_json:
  "sanitized m \<Longrightarrow> no_empty_children m \<Longrightarrow> validateAndCleanMindMap (node_json m) = Some m"
proof (induction m)
  case (MindMapNode t s src ch)
  show ?case
  proof (cases ch)
    case None
    with MindMapNode.prems show ?thesis
      by (simp add: validateAndCleanMindMap.simps)
  next
    case (Some cs)
    with MindMapNode.prems obtain c cs' where cs: "cs = c # cs'"
      by (cases cs) auto
    have each: "validateAndCleanMindMap (node_json z) = Some z" if "z \<in> set cs" for z
      using MindMapNode.IH MindMapNode.prems Some that
      by (auto simp: list_all_iff)
    have head: "validateAndCleanMindMap (node_json c) = Some c"
      using each cs by simp
    have rest: "map (validateAndCleanMindMap \<circ> node_json) cs' = map Some cs'"
      using each cs by simp
    have unwrap: "map the (filter (\<lambda>child. child \<noteq> None) (map Some xs)) = xs"
      for xs :: "MindMapNode list"
      by (induction xs) auto
    from MindMapNode.prems Some cs show ?thesis
      by (subst validateAndCleanMindMap.simps) (simp add: head rest unwrap)
  qed
qed

lemma sanitize_idempotent_without_empty_children:
  "validateAndCleanMindMap node = Some m \<Longrightarrow> no_empty_children m \<Longrightarrow>
     validateAndCleanMindMap (node_json m) = Some m"
  by (rule validate_node_json [OF validate_sanitized])

text \<open>
  Run on its own result, the sanitizer returns a sanitized tree without an empty
  \<open>children\<close> array; from the second run on, the result no longer changes.
\<close>

lemma second_run_clean:
  "sanitized m \<Longrightarrow>
     \<exists>m'. validateAndCleanMindMap (node_json m) = Some m' \<and> sanitized m' \<and> no_empty_children m'"
proof (induction m)
  case (MindMapNode t s src ch)
  from MindMapNode.prems have t: "length t \<le> 200" and src: "truthy src" by simp_all
  show ?case
  proof (cases ch)
    case None
    with t src show ?thesis
      by (simp add: validateAndCleanMindMap.simps)
  next
    case (Some cs)
    show ?thesis
    proof (cases cs)
      case Nil
      with Some t src show ?thesis
        by (simp add: validateAndCleanMindMap.simps)
    next
      case (Cons c cs')
      have each: "\<exists>m'. validateAndCleanMindMap (node_json z) = Some m' \<and> sanitized m' \<and> no_empty_children m'"
        if "z \<in> set cs" for z
        using MindMapNode.IH MindMapNode.prems Some that
        by (auto simp: list_all_iff)
      let ?out = "map the (filter (\<lambda>child. child \<noteq> None) (map validateAndCleanMindMap (map node_json cs)))"
      have all: "\<forall>m'\<in>set ?out. sanitized m' \<and> no_empty_children m'"
        using each by fastforce
      have ne: "?out \<noteq> []"
        using each [of c] Cons by auto
      have "validateAndCleanMindMap (node_json (MindMapNode t s src ch))
              = Some (MindMapNode t s src (Some ?out))"
        using t src Some Cons by (subst validateAndCleanMindMap.simps) simp
      with all ne t src show ?thesis
        by (simp add: list_all_iff)
    qed
  qed
qed

lemma third_run_fixed:
  assumes "validateAndCleanMindMap node = Some m"
  shows "\<exists>m'. validateAndCleanMindMap (node_json m) = Some m' \<and>
              validateAndCleanMindMap (node_json m') = Some m'"
  using second_run_clean [OF validate_sanitized [OF assms]] validate_node_json by blast

text \<open>
  d3 gives a node whose object holds an empty \<open>children\<close> array no \<open>children\<close>:
  the node is a leaf of the hierarchy.
\<close>

lemma empty_children_is_leaf:
  "obj_children d = Some [] \<Longrightarrow> node_children (hierarchy d) = None"
  by (simp add: node_children_def hierarchy_def)

text \<open>
  C2. Claim: whenever the sanitizer returns a tree, running it again on that tree
  returns a structurally equal tree. The code at the payload
  \<open>{title: "Doc", summary: "s", children: [{notATitle: 1}]}\<close>: the first run keeps
  \<open>children\<close> as the empty array that is left once the invalid child is dropped,
  the second run finds an empty array and sets no \<open>children\<close> at all, so the two
  results differ.
\<close>

theorem sanitize_twice_differs:
  "validateAndCleanMindMap
     (JObj [(''title'', JStr ''Doc''), (''summary'', JStr ''s''),
            (''children'', JArr [JObj [(''notATitle'', JNum 1)]])])
     = Some (MindMapNode ''Doc'' ''s'' (JStr ''N/A'') (Some [])) \<and>
   validateAndCleanMindMap (node_json (MindMapNode ''Doc'' ''s'' (JStr ''N/A'') (Some [])))
     = Some (MindMapNode ''Doc'' ''s'' (JStr ''N/A'') None) \<and>
   MindMapNode ''Doc'' ''s'' (JStr ''N/A'') None \<noteq> MindMapNode ''Doc'' ''s'' (JStr ''N/A'') (Some [])"
  by (simp add: validateAndCleanMindMap.simps)

text \<open>
  C3. Claim: when no child is left after the invalid ones are dropped, the
  sanitized node has no \<open>children\<close> field. The code at the payload
  \<open>{title: "Doc", summary: "s", children: [{notATitle: 1}]}\<close>, whose only child
  fails validation: the result carries \<open>children\<close>, and it is the empty array.
\<close>

theorem all_children_invalid_keeps_empty_array:
  "map_option children
     (validateAndCleanMindMap
        (JObj [(''title'', JStr ''Doc''), (''summary'', JStr ''s''),
               (''children'', JArr [JObj [(''notATitle'', JNum 1)]])]))
     = Some (Some [])"
  by (simp add: validateAndCleanMindMap.simps)

text \<open>
  The sanitizer on a call stack of \<open>frames\<close> activations: it returns what
  \<open>validateAndCleanMindMap\<close> gives when the stack holds the nesting of the
  input, and throws \<open>RangeError\<close> when it does not.
\<close>

lemma array_map_cases:
  "(\<And>z. z \<in> set xs \<Longrightarrow> f z = (if P z then Inr (g z) else Inl e)) \<Longrightarrow>
     array_map f xs = (if \<forall>z\<in>set xs. P z then Inr (map g xs) else Inl e)"
  by (induction xs) auto

lemma call_depth_invalid:
  "\<not> (truthy node \<and> (\<exists>t. js_prop node ''title'' = Some (JStr t))
                \<and> (\<exists>s. js_prop node ''summary'' = Some (JStr s))) \<Longrightarrow> call_depth node = 1"
  by (subst call_depth.simps) (auto split: option.splits json.splits)

lemma call_depth_valid:
  assumes "truthy node" and "js_prop node ''title'' = Some (JStr t)"
    and "js_prop node ''summary'' = Some (JStr s)"
  shows "call_depth node =
           (case js_prop node ''children'' of
              Some (JArr (c # cs)) \<Rightarrow> Suc (Max (set (map call_depth (c # cs))))
            | _ \<Rightarrow> 1)"
  using assms by (subst call_depth.simps) simp

lemma call_depth_pos: "0 < call_depth node"
  by (subst call_depth.simps) (auto split: option.splits json.splits list.splits)

lemma validate_stack_eq:
  "validateAndCleanMindMap_stack frames node =
     (if call_depth node \<le> frames then Inr (validateAndCleanMindMap node) else Inl RangeError)"
proof (induction frames arbitrary: node)
  case 0
  then show ?case using call_depth_pos [of node] by simp
next
  case (Suc frames)
  show ?case
  proof (cases "truthy node \<and> (\<exists>t. js_prop node ''title'' = Some (JStr t))
                  \<and> (\<exists>s. js_prop node ''summary'' = Some (JStr s))")
    case False
    then have "validateAndCleanMindMap node = None"
      by (simp add: validate_None_iff)
    moreover from False have "validateAndCleanMindMap_stack (Suc frames) node = Inr None"
      by (auto split: option.splits json.splits)
    ultimately show ?thesis
      using call_depth_invalid [OF False] by simp
  next
    case True
    then obtain t s where tr: "truthy node" and ti: "js_prop node ''title'' = Some (JStr t)"
      and su: "js_prop node ''summary'' = Some (JStr s)"
      by blast
    show ?thesis
    proof (cases "\<exists>c cs. js_prop node ''children'' = Some (JArr (c # cs))")
      case False
      then have "call_depth node = 1"
        using call_depth_valid [OF tr ti su] by (auto split: option.splits json.splits list.splits)
      moreover from False have "validateAndCleanMindMap_stack (Suc frames) node = Inr (validateAndCleanMindMap node)"
        using tr ti su by (auto simp: valid_result [OF tr ti su] split: option.splits json.splits list.splits)
      ultimately show ?thesis by simp
    next
      case True
      then obtain c cs where ch: "js_prop node ''children'' = Some (JArr (c # cs))"
        by blast
      have am: "array_map (validateAndCleanMindMap_stack frames) (c # cs) =
              (if \<forall>z\<in>set (c # cs). call_depth z \<le> frames
               then Inr (map validateAndCleanMindMap (c # cs)) else Inl RangeError)"
        by (rule array_map_cases) (rule Suc.IH)
      have cd: "call_depth node = Suc (Max (set (map call_depth (c # cs))))"
        using call_depth_valid [OF tr ti su] ch by simp
      have le: "call_depth node \<le> Suc frames \<longleftrightarrow> (\<forall>z\<in>set (c # cs). call_depth z \<le> frames)"
        unfolding cd by (simp del: set_simps list.map)
      show ?thesis
      proof (cases "\<forall>z\<in>set (c # cs). call_depth z \<le> frames")
        case True
        with am have "array_map (validateAndCleanMindMap_stack frames) (c # cs)
                       = Inr (map validateAndCleanMindMap (c # cs))" by simp
        then have "validateAndCleanMindMap_stack (Suc frames) node = Inr (validateAndCleanMindMap node)"
          using tr ti su ch by (simp add: valid_result [OF tr ti su] del: array_map.simps list.map)
        with True le show ?thesis by simp
      next
        case False
        with am have "array_map (validateAndCleanMindMap_stack frames) (c # cs) = Inl RangeError"
          by simp
        then have "validateAndCleanMindMap_stack (Suc frames) node = Inl RangeError"
          using tr ti su ch by (simp del: array_map.simps)
        with False le show ?thesis by simp
      qed
    qed
  qed
qed

lemma call_depth_nested: "call_depth (nested n) = Suc n"
  by (induction n) (simp_all add: call_depth.simps)

lemma validate_stack_nested:
  "validateAndCleanMindMap_stack frames (nested n)
     = (if n < frames then Inr (Some (nested_node n)) else Inl RangeError)"
  by (simp add: validate_stack_eq call_depth_nested validate_nested Suc_le_eq)

lemma validate_stack_None_iff:
  "validateAndCleanMindMap_stack frames node = Inr None \<longleftrightarrow>
     0 < frames \<and> \<not> (truthy node \<and> (\<exists>t. js_prop node ''title'' = Some (JStr t))
                            \<and> (\<exists>s. js_prop node ''summary'' = Some (JStr s)))"
proof (cases "truthy node \<and> (\<exists>t. js_prop node ''title'' = Some (JStr t))
                  \<and> (\<exists>s. js_prop node ''summary'' = Some (JStr s))")
  case True
  then have "validateAndCleanMindMap node \<noteq> None" by (simp add: validate_None_iff)
  with True show ?thesis by (auto simp: validate_stack_eq)
next
  case False
  then have "validateAndCleanMindMap node = None" by (simp add: validate_None_iff)
  with False call_depth_invalid [OF False] show ?thesis
    by (auto simp: validate_stack_eq)
qed

text \<open>
  C4, as the claim states it: nesting deeper than a ceiling of 100 is answered
  with \<open>null\<close>, never with a crash. The code on a call stack that holds 2500
  nested activations: a valid payload nested 101 levels below its root is not
  answered with \<open>null\<close>, it is returned whole, 101 levels deep; and a valid
  payload nested 2500 levels deep is not answered with \<open>null\<close> either, the
  recursion throws \<open>RangeError\<close>.
\<close>

theorem deep_payload_returned_or_stack_exhausted:
  "validateAndCleanMindMap_stack 2500 (nested 101) = Inr (Some (nested_node 101)) \<and>
   node_depth (nested_node 101) = 101 \<and>
   validateAndCleanMindMap_stack 2500 (nested 2500) = Inl RangeError"
  by (simp add: validate_stack_nested node_depth_nested)

text \<open>
  C4, amended. The sanitizer has no depth cap; what bounds its recursion is the
  call stack. For every JSON value and every stack: when the stack holds the
  nesting of the input (\<open>call_depth node \<le> frames\<close>) the call returns, and it
  returns \<open>validateAndCleanMindMap node\<close>; when it does not, the recursion throws
  \<open>RangeError\<close>, which the sanitizer does not catch. The answer is \<open>null\<close> exactly
  when the root is falsy or lacks a string \<open>title\<close> or a string \<open>summary\<close>,
  whatever the depth. So a valid payload nested \<open>n\<close> levels deep is returned as
  a tree \<open>n\<close> levels deep when \<open>n < frames\<close> and ends in \<open>RangeError\<close>
  otherwise.
\<close>

theorem sanitizer_has_no_depth_cap:
  "validateAndCleanMindMap_stack frames node =
     (if call_depth node \<le> frames then Inr (validateAndCleanMindMap node)
      else Inl RangeError) \<and>
   (validateAndCleanMindMap_stack frames node = Inr None \<longleftrightarrow>
      0 < frames \<and> \<not> (truthy node \<and> (\<exists>t. js_prop node ''title'' = Some (JStr t))
                              \<and> (\<exists>s. js_prop node ''summary'' = Some (JStr s)))) \<and>
   validateAndCleanMindMap_stack frames (nested n) =
     (if n < frames then Inr (Some (nested_node n)) else Inl RangeError) \<and>
   node_depth (nested_node n) = n"
  using validate_stack_eq [of frames node] validate_stack_None_iff [of frames node]
    validate_stack_nested [of frames n] node_depth_nested [of n]
  by blast

theorem sanitizer_has_no_depth_cap_witness:
  "call_depth (nested 1) = 2 \<and>
   validateAndCleanMindMap_stack 2 (nested 1) = Inr (Some (nested_node 1)) \<and>
   validateAndCleanMindMap_stack 1 (nested 1) = Inl RangeError \<and>
   validateAndCleanMindMap_stack 1 JNull = Inr None \<and>
   validateAndCleanMindMap_stack 0 JNull = Inl RangeError"
proof -
  have depth: "call_depth (nested 1) = 2"
    by (simp add: call_depth.simps)
  have null_depth: "call_depth JNull = 1"
    by (simp add: call_depth.simps)
  have result: "validateAndCleanMindMap (nested 1) = Some (nested_node 1)"
    by (simp add: validateAndCleanMindMap.simps)
  have null_result: "validateAndCleanMindMap JNull = None"
    by (simp add: validateAndCleanMindMap.simps)
  show ?thesis
    using depth
      sanitizer_has_no_depth_cap [of 2 "nested 1" 1]
      sanitizer_has_no_depth_cap [of 1 "nested 1" 1]
      sanitizer_has_no_depth_cap [of 1 JNull 1]
      sanitizer_has_no_depth_cap [of 0 JNull 1]
    by (simp only: depth null_depth result null_result) simp
qed

text \<open>
  C5, as the claim states it: a \<open>sourceText\<close> that is present is copied. The code
  at \<open>{title: "a", summary: "b", sourceText: ""}\<close>: the field is present, it is the
  empty string, and the result holds \<open>"N/A"\<close> instead.
\<close>

theorem empty_sourceText_replaced:
  "js_prop (JObj [(''title'', JStr ''a''), (''summary'', JStr ''b''), (''sourceText'', JStr [])])
           ''sourceText'' = Some (JStr []) \<and>
   map_option sourceText
     (validateAndCleanMindMap
        (JObj [(''title'', JStr ''a''), (''summary'', JStr ''b''), (''sourceText'', JStr [])]))
     = Some (JStr ''N/A'') \<and>
   JStr ''N/A'' \<noteq> JStr []"
  by (simp add: validateAndCleanMindMap.simps)

text \<open>
  C5, amended. For every valid input node (truthy, with a string \<open>title\<close> and a
  string \<open>summary\<close>) the sanitizer returns a node whose \<open>sourceText\<close> is the
  input's \<open>sourceText\<close> when that is a non-empty string, and is \<open>"N/A"\<close> when the
  input's \<open>sourceText\<close> is absent or falsy (the empty string, \<open>null\<close>, \<open>false\<close>,
  \<open>0\<close>).
\<close>

theorem sourceText_copied_or_defaulted:
  assumes "truthy node" and "js_prop node ''title'' = Some (JStr t)"
    and "js_prop node ''summary'' = Some (JStr s)"
  shows "\<exists>m. validateAndCleanMindMap node = Some m \<and>
           (\<forall>x. js_prop node ''sourceText'' = Some (JStr x) \<and> x \<noteq> [] \<longrightarrow>
                  sourceText m = JStr x) \<and>
           (js_prop node ''sourceText'' = None \<or>
            (\<exists>v. js_prop node ''sourceText'' = Some v \<and> \<not> truthy v) \<longrightarrow>
                  sourceText m = JStr ''N/A'')"
  by (auto simp: valid_result [OF assms])

theorem sourceText_copied_or_defaulted_witness:
  "(\<exists>m. validateAndCleanMindMap
           (JObj [(''title'', JStr ''a''), (''summary'', JStr ''b''), (''sourceText'', JStr ''quote'')])
         = Some m \<and> sourceText m = JStr ''quote'') \<and>
   (\<exists>m. validateAndCleanMindMap (JObj [(''title'', JStr ''a''), (''summary'', JStr ''b'')])
         = Some m \<and> sourceText m = JStr ''N/A'')"
  using
    sourceText_copied_or_defaulted
      [of "JObj [(''title'', JStr ''a''), (''summary'', JStr ''b''), (''sourceText'', JStr ''quote'')]"
          "''a''" "''b''"]
    sourceText_copied_or_defaulted
      [of "JObj [(''title'', JStr ''a''), (''summary'', JStr ''b'')]" "''a''" "''b''"]
  by simp

text \<open>
  C6. Claim: every node of a sanitizer result has a string \<open>sourceText\<close>, as
  \<open>MindMapNode\<close> declares. The code at \<open>{title: "a", summary: "b", sourceText: 42}\<close>:
  the number is truthy and is copied as it is, so the result's \<open>sourceText\<close> is the
  number 42. (Title and summary are checked to be strings, and the title is cut
  to 200 code units; see \<open>title_truncated_summary_kept\<close> and \<open>validate_sanitized\<close>.)
\<close>

theorem number_sourceText_copied:
  "validateAndCleanMindMap
     (JObj [(''title'', JStr ''a''), (''summary'', JStr ''b''), (''sourceText'', JNum 42)])
     = Some (MindMapNode ''a'' ''b'' (JNum 42) None) \<and>
   (\<forall>x. JNum 42 \<noteq> JStr x)"
  by (simp add: validateAndCleanMindMap.simps)

section \<open>Focus mode\<close>

lemma chain_eq: "chain h = ref (data h) # chain_above h"
  by (cases h) (simp add: chain_above_def)

lemma collect_ancestors_chain:
  "collect_ancestors c acc = acc \<union> (case c of None \<Rightarrow> {} | Some h \<Rightarrow> set (chain h))"
  by (induction c acc rule: collect_ancestors.induct) (auto split: option.splits)

lemma set_eachBefore:
  "set (eachBefore h) = insert h (\<Union>k\<in>set (child_nodes h). set (eachBefore k))"
  by (subst eachBefore.simps) auto

lemma set_bfs: "set (bfs level) = (\<Union>h\<in>set level. set (eachBefore h))"
proof (induction level rule: bfs.induct)
  case (1 level)
  show ?case
  proof (cases "level = []")
    case True
    then show ?thesis by (simp add: bfs.simps)
  next
    case False
    have "set (bfs level) = set level \<union> set (bfs (concat (map child_nodes level)))"
      using False by (subst bfs.simps) simp
    also have "\<dots> = set level \<union> (\<Union>h\<in>set level. \<Union>k\<in>set (child_nodes h). set (eachBefore k))"
      using "1.IH" [OF False] by auto
    also have "\<dots> = (\<Union>h\<in>set level. insert h (\<Union>k\<in>set (child_nodes h). set (eachBefore k)))"
      by auto
    also have "\<dots> = (\<Union>h\<in>set level. set (eachBefore h))"
      by (simp only: set_eachBefore [symmetric])
    finally show ?thesis .
  qed
qed

lemma set_descendants: "set (descendants h) = set (eachBefore h)"
  by (simp add: descendants_def set_bfs)

lemma child_nodes_conv:
  "child_nodes h = map (\<lambda>k. HierarchyNode k (depth h + 1) (Some h))
                       (case obj_children (data h) of None \<Rightarrow> [] | Some cs \<Rightarrow> cs)"
  by (simp add: child_nodes_def node_children_def split: option.splits list.splits)

lemma refs_eq:
  "refs t = ref t # concat (map refs (case obj_children t of None \<Rightarrow> [] | Some cs \<Rightarrow> cs))"
  by (cases t) (simp split: option.splits)

lemma path_to_eq:
  "path_to t x =
     (if ref t = x then Some [ref t]
      else case first_some (map (\<lambda>c. path_to c x) (case obj_children t of None \<Rightarrow> [] | Some cs \<Rightarrow> cs)) of
             None \<Rightarrow> None | Some p \<Rightarrow> Some (ref t # p))"
  by (cases t) (simp split: option.splits)

lemma first_some_None_iff: "first_some xs = None \<longleftrightarrow> (\<forall>x\<in>set xs. x = None)"
  by (induction xs rule: first_some.induct) auto

lemma path_to_None_iff: "path_to t x = None \<longleftrightarrow> x \<notin> set (refs t)"
proof (induction t x rule: path_to.induct)
  case (1 r t s src ch x)
  show ?case
  proof (cases "r = x")
    case True
    then show ?thesis by simp
  next
    case False
    show ?thesis
    proof (cases ch)
      case None
      with False show ?thesis by simp
    next
      case (Some cs)
      have "path_to c x = None \<longleftrightarrow> x \<notin> set (refs c)" if "c \<in> set cs" for c
        using "1.IH" [OF False Some that] .
      then have "first_some (map (\<lambda>c. path_to c x) cs) = None \<longleftrightarrow> (\<forall>c\<in>set cs. x \<notin> set (refs c))"
        by (simp add: first_some_None_iff)
      then show ?thesis
        using Some False by (auto split: option.splits)
    qed
  qed
qed

lemma first_some_skip:
  "(\<forall>y\<in>set pre. f y = None) \<Longrightarrow> f c = Some p \<Longrightarrow> first_some (map f (pre @ c # post)) = Some p"
  by (induction pre) auto

lemma refs_eachBefore: "ref ` data ` set (eachBefore h) = set (refs (data h))"
proof (induction h rule: eachBefore.induct)
  case (1 d)
  have "ref ` data ` set (eachBefore d)
          = insert (ref (data d)) (\<Union>k\<in>set (child_nodes d). ref ` data ` set (eachBefore k))"
    by (subst eachBefore.simps) auto
  also have "\<dots> = insert (ref (data d)) (\<Union>k\<in>set (child_nodes d). set (refs (data k)))"
    using "1.IH" by simp
  also have "\<dots> = set (refs (data d))"
    by (subst (2) refs_eq) (auto simp: child_nodes_conv)
  finally show ?case .
qed

lemma chain_eachBefore:
  "distinct (refs (data h)) \<Longrightarrow> h' \<in> set (eachBefore h) \<Longrightarrow>
     \<exists>p. path_to (data h) (ref (data h')) = Some p \<and> chain h' = rev p @ chain_above h"
proof (induction h arbitrary: h' rule: eachBefore.induct)
  case (1 d)
  let ?cs = "case obj_children (data d) of None \<Rightarrow> [] | Some cs \<Rightarrow> cs"
  from "1.prems"(2) consider "h' = d" | k where "k \<in> set (child_nodes d)" "h' \<in> set (eachBefore k)"
    by (subst (asm) eachBefore.simps) auto
  then show ?case
  proof cases
    case 1
    then show ?thesis
      by (subst path_to_eq) (simp add: chain_eq)
  next
    case 2
    from 2(1) have dk: "data k \<in> set ?cs" and pk: "parent k = Some d"
      by (auto simp: child_nodes_conv)
    from split_list [OF dk] obtain pre post where split: "?cs = pre @ data k # post"
      by blast
    have dist: "distinct (ref (data d) # concat (map refs pre) @ refs (data k) @ concat (map refs post))"
      using "1.prems"(1) by (subst (asm) refs_eq) (simp add: split)
    then have dk_dist: "distinct (refs (data k))" by simp
    from "1.IH" [OF 2(1) dk_dist 2(2)] obtain p where
      p: "path_to (data k) (ref (data h')) = Some p" and ch: "chain h' = rev p @ chain_above k"
      by blast
    let ?x = "ref (data h')"
    from p have xin: "?x \<in> set (refs (data k))"
      using path_to_None_iff [of "data k" ?x] by simp
    with dist have ne: "ref (data d) \<noteq> ?x" and pre_none: "\<forall>y\<in>set pre. path_to y ?x = None"
      by (auto simp: path_to_None_iff)
    have "first_some (map (\<lambda>c. path_to c ?x) ?cs) = Some p"
      unfolding split using pre_none p by (rule first_some_skip)
    with ne have "path_to (data d) ?x = Some (ref (data d) # p)"
      by (subst path_to_eq) simp
    moreover have "chain h' = rev (ref (data d) # p) @ chain_above d"
      using ch pk by (simp add: chain_above_def chain_eq [of d])
    ultimately show ?thesis by blast
  qed
qed

lemma first_some_SomeD: "first_some xs = Some p \<Longrightarrow> Some p \<in> set xs"
  by (induction xs rule: first_some.induct) auto

lemma path_to_ends: "path_to t x = Some p \<Longrightarrow> p \<noteq> [] \<and> hd p = ref t \<and> last p = x"
proof (induction t x arbitrary: p rule: path_to.induct)
  case (1 r t s src ch x)
  show ?case
  proof (cases "r = x")
    case True
    with "1.prems" show ?thesis by auto
  next
    case False
    with "1.prems" obtain cs q where ch: "ch = Some cs"
      and q: "first_some (map (\<lambda>c. path_to c x) cs) = Some q" and p: "p = r # q"
      by (cases ch) (auto split: option.splits)
    from first_some_SomeD [OF q] obtain c where "c \<in> set cs" "path_to c x = Some q"
      by auto
    from "1.IH" [OF False ch this] p show ?thesis by simp
  qed
qed

lemma data_descendants_refs:
  "h \<in> set (descendants (hierarchy t)) \<Longrightarrow> ref (data h) \<in> set (refs t)"
  using refs_eachBefore [of "hierarchy t"]
  by (auto simp: set_descendants hierarchy_def)

lemma focus_ancestors_stale:
  assumes "sel \<notin> set (refs t)"
  shows "focus_ancestors t (Some sel) = {}"
proof -
  have "find (\<lambda>h. Some (ref (data h)) = Some sel) (descendants (hierarchy t)) = None"
    using assms data_descendants_refs [of _ t] by (auto simp: find_None_iff)
  then show ?thesis
    by (simp add: focus_ancestors_def)
qed

lemma focus_ancestors_path:
  assumes "distinct (refs t)" and "sel \<in> set (refs t)"
  shows "\<exists>p. path_to t sel = Some p \<and> focus_ancestors t (Some sel) = set p"
proof -
  let ?P = "\<lambda>h. Some (ref (data h)) = Some sel"
  have "sel \<in> ref ` data ` set (eachBefore (hierarchy t))"
    using assms(2) by (simp add: refs_eachBefore hierarchy_def)
  then obtain h0 where "h0 \<in> set (descendants (hierarchy t))" "ref (data h0) = sel"
    by (auto simp: set_descendants)
  then have "find ?P (descendants (hierarchy t)) \<noteq> None"
    by (auto simp: find_None_iff)
  then obtain h where f: "find ?P (descendants (hierarchy t)) = Some h"
    by auto
  then have hin: "h \<in> set (eachBefore (hierarchy t))" and hsel: "ref (data h) = sel"
    by (auto simp: find_Some_iff set_descendants [symmetric] in_set_conv_nth)
  from chain_eachBefore [of "hierarchy t" h] assms(1) hin hsel
  obtain p where "path_to t sel = Some p" "chain h = rev p"
    by (auto simp: hierarchy_def chain_above_def)
  with f show ?thesis
    by (simp add: focus_ancestors_def collect_ancestors_chain)
qed

lemmas four_nodes_defs =
  four_nodes_def node_A_def node_B_def node_C_def h_root_def h_A_def h_B_def h_C_def

lemma descendants_four_nodes: "descendants (hierarchy four_nodes) = [h_root, h_A, h_B, h_C]"
  by (simp add: four_nodes_defs descendants_def hierarchy_def bfs.simps child_nodes_def
                node_children_def)

lemma links_four_nodes:
  "links (hierarchy four_nodes) =
     [\<lparr>source = h_root, target = h_A\<rparr>, \<lparr>source = h_root, target = h_B\<rparr>,
      \<lparr>source = h_A, target = h_C\<rparr>]"
  by (simp add: links_def descendants_four_nodes) (simp add: four_nodes_defs)

lemma refs_four_nodes: "refs four_nodes = [0, 1, 3, 2]"
  by (simp add: four_nodes_defs)

text \<open>
  C1, as the claim states it: a selected node that is not in the tree leaves every
  node and edge full, as a null selection does. The code in focus mode, on the
  tree of four objects with the selected reference 7, which is none of them:
  \<open>find\<close> yields \<open>undefined\<close>, the set of ancestors stays empty, and the root group
  gets opacity 0.15, where a null selection gives it opacity 1.
\<close>

theorem stale_selection_dims_root:
  "7 \<notin> set (refs four_nodes) \<and>
   h_root \<in> set (descendants (hierarchy four_nodes)) \<and>
   g_opacity (focus_effect False True four_nodes (Some 7)) h_root = 15 / 100 \<and>
   g_opacity (focus_effect False True four_nodes None) h_root = 1"
  by (simp add: descendants_four_nodes refs_four_nodes focus_effect_def focus_ancestors_def)
     (simp add: four_nodes_defs)

text \<open>
  C1, amended. For every tree and every selected node that does not occur in it,
  the focus effect does not fail (it is a total function: \<open>find\<close> yields
  \<open>undefined\<close> and the loop is skipped). With focus mode on, it marks every node
  and every edge dimmed (opacity 0.15 and stroke opacity 0.1) and no node active
  (radius 5, the default fill); with focus mode off, the result is the one of a
  null selection, every node and edge full.
\<close>

theorem stale_selection_dims_everything:
  assumes "sel \<notin> set (refs tree)"
  shows "(\<forall>h\<in>set (descendants (hierarchy tree)).
            g_opacity (focus_effect isDarkMode True tree (Some sel)) h = 15 / 100 \<and>
            circle_r (focus_effect isDarkMode True tree (Some sel)) h = 5 \<and>
            circle_fill (focus_effect isDarkMode True tree (Some sel)) h
              = default_fill isDarkMode h) \<and>
         (\<forall>l\<in>set (links (hierarchy tree)).
            path_stroke_opacity (focus_effect isDarkMode True tree (Some sel)) l = 1 / 10) \<and>
         focus_effect isDarkMode False tree (Some sel) = focus_effect isDarkMode False tree None \<and>
         (\<forall>h\<in>set (descendants (hierarchy tree)).
            g_opacity (focus_effect isDarkMode False tree (Some sel)) h = 1) \<and>
         (\<forall>l\<in>set (links (hierarchy tree)).
            path_stroke_opacity (focus_effect isDarkMode False tree (Some sel)) l = 1)"
  using assms data_descendants_refs [of _ tree]
  by (auto simp: focus_effect_def focus_ancestors_stale Let_def)

theorem stale_selection_dims_everything_witness:
  "7 \<notin> set (refs four_nodes) \<and>
   h_C \<in> set (descendants (hierarchy four_nodes)) \<and>
   \<lparr>source = h_A, target = h_C\<rparr> \<in> set (links (hierarchy four_nodes)) \<and>
   g_opacity (focus_effect False True four_nodes (Some 7)) h_C = 15 / 100 \<and>
   circle_r (focus_effect False True four_nodes (Some 7)) h_C = 5 \<and>
   path_stroke_opacity (focus_effect False True four_nodes (Some 7))
     \<lparr>source = h_A, target = h_C\<rparr> = 1 / 10 \<and>
   g_opacity (focus_effect False False four_nodes (Some 7)) h_C = 1 \<and>
   path_stroke_opacity (focus_effect False False four_nodes (Some 7))
     \<lparr>source = h_A, target = h_C\<rparr> = 1"
proof -
  have stale: "7 \<notin> set (refs four_nodes)"
    by (simp add: refs_four_nodes)
  have node: "h_C \<in> set (descendants (hierarchy four_nodes))"
    by (simp add: descendants_four_nodes)
  have link: "\<lparr>source = h_A, target = h_C\<rparr> \<in> set (links (hierarchy four_nodes))"
    by (simp add: links_four_nodes)
  show ?thesis
    using stale node link stale_selection_dims_everything [OF stale, of False]
    by blast
qed

text \<open>
  C7, as the claim states it: whenever a node of the tree is selected, the nodes
  off the root-to-selected path are dimmed. The code with focus mode off, on the
  tree of four objects with node 3 selected: the path is 0, 1, 3, node 2 is off
  it, and its group gets opacity 1.
\<close>

theorem selection_without_focus_mode_dims_nothing:
  "path_to four_nodes 3 = Some [0, 1, 3] \<and>
   h_B \<in> set (descendants (hierarchy four_nodes)) \<and>
   ref (data h_B) = 2 \<and>
   g_opacity (focus_effect False False four_nodes (Some 3)) h_B = 1"
  by (simp add: descendants_four_nodes focus_effect_def) (simp add: four_nodes_defs)

text \<open>
  C7, amended. For every tree (every object occurs once in it) and every selected
  node belonging to it, when focus mode is on: the search finds the path \<open>p\<close> from
  the root to the selected node, both included; a node is full (opacity 1) if it
  is on \<open>p\<close> and dimmed (opacity 0.15) if not; the selected node, and no other, is
  active (radius 8 and the amber fill); an edge is full (stroke opacity 1) if both
  its endpoints are on \<open>p\<close> and dimmed (0.1) otherwise.
\<close>

theorem focus_mode_marks_path:
  assumes "distinct (refs tree)" and "sel \<in> set (refs tree)"
  shows "\<exists>p. path_to tree sel = Some p \<and> hd p = ref tree \<and> last p = sel \<and>
           (\<forall>h\<in>set (descendants (hierarchy tree)).
              g_opacity (focus_effect isDarkMode True tree (Some sel)) h
                = (if ref (data h) \<in> set p then 1 else 15 / 100) \<and>
              circle_r (focus_effect isDarkMode True tree (Some sel)) h
                = (if ref (data h) = sel then 8 else 5) \<and>
              (circle_fill (focus_effect isDarkMode True tree (Some sel)) h = ''#f59e0b'')
                = (ref (data h) = sel)) \<and>
           (\<forall>l\<in>set (links (hierarchy tree)).
              path_stroke_opacity (focus_effect isDarkMode True tree (Some sel)) l
                = (if ref (data (source l)) \<in> set p \<and> ref (data (target l)) \<in> set p
                   then 1 else 1 / 10))"
proof -
  from focus_ancestors_path [OF assms] obtain p where
    p: "path_to tree sel = Some p" and anc: "focus_ancestors tree (Some sel) = set p"
    by blast
  from path_to_ends [OF p] have ends: "hd p = ref tree" "last p = sel"
    by simp_all
  show ?thesis
    using p ends anc
    by (auto simp: focus_effect_def default_fill_def Let_def)
qed

theorem focus_mode_marks_path_witness:
  "distinct (refs four_nodes) \<and> 3 \<in> set (refs four_nodes) \<and>
   path_to four_nodes 3 = Some [0, 1, 3] \<and>
   h_A \<in> set (descendants (hierarchy four_nodes)) \<and>
   h_B \<in> set (descendants (hierarchy four_nodes)) \<and>
   h_C \<in> set (descendants (hierarchy four_nodes)) \<and>
   \<lparr>source = h_root, target = h_A\<rparr> \<in> set (links (hierarchy four_nodes)) \<and>
   \<lparr>source = h_root, target = h_B\<rparr> \<in> set (links (hierarchy four_nodes)) \<and>
   g_opacity (focus_effect False True four_nodes (Some 3)) h_A = 1 \<and>
   g_opacity (focus_effect False True four_nodes (Some 3)) h_B = 15 / 100 \<and>
   g_opacity (focus_effect False True four_nodes (Some 3)) h_C = 1 \<and>
   circle_r (focus_effect False True four_nodes (Some 3)) h_A = 5 \<and>
   circle_r (focus_effect False True four_nodes (Some 3)) h_C = 8 \<and>
   circle_fill (focus_effect False True four_nodes (Some 3)) h_C = ''#f59e0b'' \<and>
   path_stroke_opacity (focus_effect False True four_nodes (Some 3))
     \<lparr>source = h_root, target = h_A\<rparr> = 1 \<and>
   path_stroke_opacity (focus_effect False True four_nodes (Some 3))
     \<lparr>source = h_root, target = h_B\<rparr> = 1 / 10"
proof -
  have tree: "distinct (refs four_nodes)" and sel: "3 \<in> set (refs four_nodes)"
    by (simp_all add: refs_four_nodes)
  have path: "path_to four_nodes 3 = Some [0, 1, 3]"
    by (simp add: four_nodes_defs)
  have nodes: "h_A \<in> set (descendants (hierarchy four_nodes))"
    "h_B \<in> set (descendants (hierarchy four_nodes))"
    "h_C \<in> set (descendants (hierarchy four_nodes))"
    by (simp_all add: descendants_four_nodes)
  have edges: "\<lparr>source = h_root, target = h_A\<rparr> \<in> set (links (hierarchy four_nodes))"
    "\<lparr>source = h_root, target = h_B\<rparr> \<in> set (links (hierarchy four_nodes))"
    by (simp_all add: links_four_nodes)
  have at: "ref (data h_root) = 0" "ref (data h_A) = 1" "ref (data h_B) = 2" "ref (data h_C) = 3"
    by (simp_all add: four_nodes_defs)
  from focus_mode_marks_path [OF tree sel, of False] path
  have marks:
    "\<forall>h\<in>set (descendants (hierarchy four_nodes)).
        g_opacity (focus_effect False True four_nodes (Some 3)) h
          = (if ref (data h) \<in> set [0, 1, 3] then 1 else 15 / 100) \<and>
        circle_r (focus_effect False True four_nodes (Some 3)) h
          = (if ref (data h) = 3 then 8 else 5) \<and>
        (circle_fill (focus_effect False True four_nodes (Some 3)) h = ''#f59e0b'')
          = (ref (data h) = 3)"
    "\<forall>l\<in>set (links (hierarchy four_nodes)).
        path_stroke_opacity (focus_effect False True four_nodes (Some 3)) l
          = (if ref (data (source l)) \<in> set [0, 1, 3] \<and> ref (data (target l)) \<in> set [0, 1, 3]
             then 1 else 1 / 10)"
    by auto
  show ?thesis
    using tree sel path nodes edges
      marks(1) [rule_format, OF nodes(1)] marks(1) [rule_format, OF nodes(2)]
      marks(1) [rule_format, OF nodes(3)]
      marks(2) [rule_format, OF edges(1)] marks(2) [rule_format, OF edges(2)]
    by (simp add: at)
qed

section \<open>The layout radius\<close>

lemma leaf_count_eq:
  "leaf_count (obj_value t) =
     (case obj_children t of
        None \<Rightarrow> 1
      | Some cs \<Rightarrow> if cs = [] then 1 else sum_list (map (\<lambda>c. leaf_count (obj_value c)) cs))"
  by (cases t) (simp add: comp_def split: option.splits)

lemma length_filter_concat:
  "length (filter P (concat xss)) = sum_list (map (\<lambda>xs. length (filter P xs)) xss)"
  by (induction xss) simp_all

lemma length_leaves:
  "length (filter (\<lambda>d. node_children d = None) (eachBefore h)) = leaf_count (obj_value (data h))"
proof (induction h rule: eachBefore.induct)
  case (1 d)
  let ?P = "\<lambda>d. node_children d = None"
  show ?case
  proof (cases "node_children d")
    case None
    then have "child_nodes d = []" by (simp add: child_nodes_def)
    with None have "length (filter ?P (eachBefore d)) = 1"
      by (subst eachBefore.simps) simp
    moreover from None have "leaf_count (obj_value (data d)) = 1"
      by (subst leaf_count_eq) (auto simp: node_children_def split: option.splits list.splits)
    ultimately show ?thesis by simp
  next
    case (Some ks)
    then obtain cs where cs: "obj_children (data d) = Some cs" "cs \<noteq> []"
      and ks: "child_nodes d = map (\<lambda>k. HierarchyNode k (depth d + 1) (Some d)) cs"
      by (auto simp: child_nodes_def node_children_def split: option.splits list.splits)
    have "length (filter ?P (eachBefore d))
            = sum_list (map (\<lambda>k. length (filter ?P (eachBefore k))) (child_nodes d))"
      using Some by (subst eachBefore.simps) (simp add: length_filter_concat comp_def)
    also have "\<dots> = sum_list (map (\<lambda>k. leaf_count (obj_value (data k))) (child_nodes d))"
      using "1.IH" by (auto intro: arg_cong [where f = sum_list])
    also have "\<dots> = sum_list (map (\<lambda>c. leaf_count (obj_value c)) cs)"
      by (simp add: ks comp_def)
    also have "\<dots> = leaf_count (obj_value (data d))"
      using cs by (subst (2) leaf_count_eq) simp
    finally show ?thesis .
  qed
qed

lemma leaf_count_pos: "0 < leaf_count m"
proof (induction m)
  case (MindMapNode t s src ch)
  show ?case
  proof (cases ch)
    case None
    then show ?thesis by simp
  next
    case (Some cs)
    show ?thesis
    proof (cases cs)
      case Nil
      with Some show ?thesis by simp
    next
      case (Cons c cs')
      have "0 < leaf_count c"
        using MindMapNode.IH Some Cons by auto
      with Some Cons show ?thesis by simp
    qed
  qed
qed

text \<open>
  C8. For every tree with \<open>L\<close> leaves (nodes with no children) laid out in a
  viewport of positive width and height, the radius is computed, and it is the
  greater of \<open>L * 35 / (2 * pi)\<close> and the shorter side of the viewport divided by
  2.5; in particular it is at least the maximum of the two. (\<open>leaves.length || 1\<close>
  is \<open>L\<close>: a tree has at least one leaf.)
\<close>

theorem layout_radius_formula:
  assumes "0 < width" and "0 < height"
  shows "\<exists>radius. layout_radius tree width height = Some radius \<and>
           radius = max (real (leaf_count (obj_value tree)) * 35 / (2 * pi)) (min width height / 2.5) \<and>
           radius \<ge> max (min width height / 2.5) (real (leaf_count (obj_value tree)) * 35 / (2 * pi))"
proof -
  have len: "length (leaves (hierarchy tree)) = leaf_count (obj_value tree)"
    by (simp add: leaves_def length_leaves hierarchy_def)
  have count: "(if length (leaves (hierarchy tree)) = 0 then 1 else length (leaves (hierarchy tree)))
                 = leaf_count (obj_value tree)"
    unfolding len using leaf_count_pos [of "obj_value tree"] by simp
  have "layout_radius tree width height
          = Some (max (real (leaf_count (obj_value tree)) * 35 / (2 * pi)) (min width height / 2.5))"
    unfolding layout_radius_def Let_def count using assms by simp
  then show ?thesis
    by (simp add: max.commute)
qed

theorem layout_radius_formula_witness: "(0::real) < 800 \<and> (0::real) < 600 \<and> leaf_count (obj_value four_nodes) = 2 \<and>
   layout_radius four_nodes 800 600 = Some 240"
proof -
  have w: "(0::real) < 800" and h: "(0::real) < 600"
    by simp_all
  have lc: "leaf_count (obj_value four_nodes) = 2"
    by (simp add: four_nodes_defs)
  have "(2::real) * 35 / (2 * pi) \<le> 240"
    using pi_ge_two by (simp add: field_simps)
  then have m: "max (real (leaf_count (obj_value four_nodes)) * 35 / (2 * pi)) (min 800 600 / 2.5)
                  = (240::real)"
    unfolding lc by simp
  from layout_radius_formula [OF w h, of four_nodes]
  have "layout_radius four_nodes 800 600
          = Some (max (real (leaf_count (obj_value four_nodes)) * 35 / (2 * pi)) (min 800 600 / 2.5))"
    by blast
  then have "layout_radius four_nodes 800 600 = Some 240"
    unfolding m .
  with w h lc show ?thesis
    by blast
qed

section \<open>The archive\<close>

lemma archives_store7: "getArchivedMindMaps full_host store7 = Inr [entry7]"
  by (simp add: getArchivedMindMaps_def getArchivedMindMaps_try_def full_host_def store7_def
                ARCHIVE_KEY_def)

lemma write_full_host: "write_archives full_host st xs = Inl QuotaExceededError"
  by (simp add: write_archives_def full_host_def)

text \<open>
  C9. Let \<open>archives\<close> be the list the archive holds before the operation (what
  listing returns on the store as it is). If the write of \<open>saveMindMap\<close> throws,
  \<open>saveMindMap\<close> returns \<open>archives\<close> and leaves the store as it was; if the write
  of \<open>deleteMindMap\<close> throws, \<open>deleteMindMap\<close> returns \<open>archives\<close> and leaves the
  store as it was. So the list the caller sees after the failed operation is the
  list before it.
\<close>

theorem failed_write_returns_previous_list:
  assumes "getArchivedMindMaps host st = Inr archives"
  shows "(write_archives host st (newArchive now createdAt fileName mindMapData # archives) = Inl e
            \<longrightarrow> saveMindMap host now createdAt fileName mindMapData st = (Inr archives, st)) \<and>
         (filter_other_ids ident archives = Inr updatedArchives \<and>
          write_archives host st updatedArchives = Inl e'
            \<longrightarrow> deleteMindMap host ident st = (Inr archives, st))"
  using assms by (simp add: saveMindMap_def deleteMindMap_def)

theorem failed_write_returns_previous_list_witness:
  "getArchivedMindMaps full_host store7 = Inr [entry7] \<and>
   write_archives full_host store7 (newArchive 9 ''2026'' ''b.pdf'' (nested_node 0) # [entry7])
     = Inl QuotaExceededError \<and>
   saveMindMap full_host 9 ''2026'' ''b.pdf'' (nested_node 0) store7 = (Inr [entry7], store7) \<and>
   filter_other_ids 7 [entry7] = Inr [] \<and>
   write_archives full_host store7 [] = Inl QuotaExceededError \<and>
   deleteMindMap full_host 7 store7 = (Inr [entry7], store7)"
proof -
  have removed: "filter_other_ids 7 [entry7] = Inr []"
    by (simp add: entry7_def)
  show ?thesis
    using failed_write_returns_previous_list
            [OF archives_store7, of 9 "''2026''" "''b.pdf''" "nested_node 0" QuotaExceededError
                7 "[]" QuotaExceededError]
          archives_store7 removed
    by (simp add: write_full_host)
qed

text \<open>
  C10. When the storage key holds no value, listing returns the empty list. For
  every store and every behaviour of the host, listing returns an array and no
  exception leaves it: whatever is thrown while reading, parsing or sorting is
  caught and answered with the empty list.
\<close>

theorem listing_never_throws:
  "(getItem host st ARCHIVE_KEY = Inr None \<longrightarrow> getArchivedMindMaps host st = Inr []) \<and>
   (\<forall>e. getArchivedMindMaps_try host st = Inl e \<longrightarrow> getArchivedMindMaps host st = Inr []) \<and>
   (\<exists>archives. getArchivedMindMaps host st = Inr archives)"
  by (auto simp: getArchivedMindMaps_def getArchivedMindMaps_try_def split: sum.splits)

theorem listing_never_throws_witness:
  "getItem full_host Map.empty ARCHIVE_KEY = Inr None \<and>
   getArchivedMindMaps full_host Map.empty = Inr [] \<and>
   getArchivedMindMaps_try full_host [ARCHIVE_KEY \<mapsto> ''{oops''] = Inl SyntaxError \<and>
   getArchivedMindMaps full_host [ARCHIVE_KEY \<mapsto> ''{oops''] = Inr []"
proof -
  have absent: "getItem full_host Map.empty ARCHIVE_KEY = Inr None"
    by (simp add: full_host_def)
  have broken: "getArchivedMindMaps_try full_host [ARCHIVE_KEY \<mapsto> ''{oops''] = Inl SyntaxError"
    by (simp add: getArchivedMindMaps_try_def full_host_def)
  show ?thesis
    using absent broken
      listing_never_throws [of full_host Map.empty]
      listing_never_throws [of full_host "[ARCHIVE_KEY \<mapsto> ''{oops'']"]
    by blast
qed

end
